theory Spec2Isabelle
  imports Complex_Main
begin

section \<open>The training script: \<open>train-classifier.py\<close>\<close>

text \<open>
  The script talks to a remote service and to the console. Both are made explicit: every
  call of the SDK client, every printed line and every \<open>time.sleep\<close> is an event of a
  trace, in program order. An exception of the SDK client is a value of \<open>error\<close>.
\<close>

datatype error =
    TransportError string
  | StopIteration
  | FileNotFoundError string

datatype sdk_call = TrainProject | GetIteration

datatype event = Print string | Call sdk_call | Sleep nat

text \<open>
  How a run ends. \<open>Running\<close> is the loop still going when the remote answers recorded so
  far have all been consumed: the loop of the source has no bound of its own.
\<close>

datatype outcome = Returned | Raised error | Running

text \<open>
  \<open>print(iteration.status, '...')\<close>: Python's \<open>print\<close> joins its arguments with one
  space.
\<close>

definition status_line :: "string \<Rightarrow> string" where
  "status_line status = status @ '' '' @ ''...''"

text \<open>
  The \<open>while\<close> loop of \<open>Train_Model\<close> (lines 146 to 155). The first argument is the
  list of results of the successive \<open>get_iteration\<close> calls, as the remote service gives
  them: \<open>Inr s\<close> is an iteration whose status is \<open>s\<close>, \<open>Inl e\<close> is the call raising
  \<open>e\<close>. \<open>status\<close> is \<open>iteration.status\<close> at the loop test, \<open>tr\<close> the trace so far.
\<close>

fun watch_loop :: "(error + string) list \<Rightarrow> string \<Rightarrow> event list \<Rightarrow> outcome \<times> event list" where
  "watch_loop [] status tr =
     (if status \<noteq> ''Completed'' then (Running, tr) else (Returned, tr))"
| "watch_loop (r # rs) status tr =
     (if status \<noteq> ''Completed'' then
        (case r of
           Inl e \<Rightarrow> (Raised e, tr @ [Call GetIteration])
         | Inr s \<Rightarrow>
             watch_loop rs s (tr @ [Call GetIteration, Print (status_line s), Sleep 5]))
      else (Returned, tr))"

text \<open>The loop followed by the line after it (line 158).\<close>

definition watch :: "(error + string) list \<Rightarrow> string \<Rightarrow> event list \<Rightarrow> outcome \<times> event list" where
  "watch rs status tr =
     (case watch_loop rs status tr of
        (Returned, tr') \<Rightarrow> (Returned, tr' @ [Print ''Model trained!''])
      | (Raised e, tr') \<Rightarrow> (Raised e, tr')
      | (Running, tr') \<Rightarrow> (Running, tr'))"

text \<open>
  \<open>Train_Model\<close> (lines 138 to 158). \<open>train\<close> is the result of \<open>train_project\<close>: the
  status of the new iteration, or the exception raised.
\<close>

definition Train_Model :: "(error + string) \<Rightarrow> (error + string) list \<Rightarrow> outcome \<times> event list" where
  "Train_Model train rs =
     (case train of
        Inl e \<Rightarrow> (Raised e, [Print ''Training ...'', Call TrainProject])
      | Inr status \<Rightarrow> watch rs status [Print ''Training ...'', Call TrainProject])"

text \<open>
  The end of \<open>main\<close> (lines 67 to 71): \<open>Train_Model\<close> runs inside \<open>try\<close>, and the handler
  prints the exception. \<open>str_of\<close> is Python's \<open>str\<close> of the exception.
\<close>

definition main_train :: "(error \<Rightarrow> string) \<Rightarrow> (error + string) \<Rightarrow> (error + string) list \<Rightarrow> outcome \<times> event list" where
  "main_train str_of train rs =
     (case Train_Model train rs of
        (Raised e, tr) \<Rightarrow> (Returned, tr @ [Print (str_of e)])
      | (Returned, tr) \<Rightarrow> (Returned, tr)
      | (Running, tr) \<Rightarrow> (Running, tr))"

subsection \<open>Reading a trace\<close>

fun printed :: "event list \<Rightarrow> string list" where
  "printed [] = []"
| "printed (Print s # tr) = s # printed tr"
| "printed (Call c # tr) = printed tr"
| "printed (Sleep n # tr) = printed tr"

fun calls :: "event list \<Rightarrow> sdk_call list" where
  "calls [] = []"
| "calls (Print s # tr) = calls tr"
| "calls (Call c # tr) = c # calls tr"
| "calls (Sleep n # tr) = calls tr"

fun sleeps :: "event list \<Rightarrow> nat list" where
  "sleeps [] = []"
| "sleeps (Print s # tr) = sleeps tr"
| "sleeps (Call c # tr) = sleeps tr"
| "sleeps (Sleep n # tr) = n # sleeps tr"

definition polls :: "event list \<Rightarrow> nat" where
  "polls tr = length (filter (\<lambda>c. c = GetIteration) (calls tr))"

text \<open>One turn of the loop body that polls the status \<open>s\<close>.\<close>

definition cycle :: "string \<Rightarrow> event list" where
  "cycle s = [Call GetIteration, Print (status_line s), Sleep 5]"

text \<open>
  The calls of the training client the script makes: \<open>train_project\<close> starts a new
  iteration of the project, \<open>get_iteration\<close> only reads one back.
\<close>

definition read_only :: "sdk_call \<Rightarrow> bool" where
  "read_only c = (case c of TrainProject \<Rightarrow> False | GetIteration \<Rightarrow> True)"

text \<open>
  The time slept between each printed line and the next one: for every \<open>Print\<close> that has
  an earlier \<open>Print\<close>, the sum of the \<open>Sleep\<close>s between the two. The first argument
  is the sum since the last \<open>Print\<close>, \<open>None\<close> before the first one. A call of the
  client takes time too, which this sum leaves out: the time that really passes is at
  least the sum.
\<close>

fun print_gaps :: "nat option \<Rightarrow> event list \<Rightarrow> nat list" where
  "print_gaps acc [] = []"
| "print_gaps acc (Print s # tr) =
     (case acc of None \<Rightarrow> [] | Some d \<Rightarrow> [d]) @ print_gaps (Some 0) tr"
| "print_gaps acc (Call c # tr) = print_gaps acc tr"
| "print_gaps acc (Sleep n # tr) =
     print_gaps (case acc of None \<Rightarrow> None | Some d \<Rightarrow> Some (d + n)) tr"

text \<open>
  The first \<open>n\<close> answers of a remote service whose \<open>k\<close>-th \<open>get_iteration\<close>
  (counted from 0) reports the status \<open>p k\<close>.
\<close>

definition answers :: "(nat \<Rightarrow> string) \<Rightarrow> nat \<Rightarrow> (error + string) list" where
  "answers p n = map (\<lambda>k. Inr (p k)) [0..<n]"

text \<open>The statuses among a list of results of \<open>get_iteration\<close>, in order.\<close>

fun statuses :: "(error + string) list \<Rightarrow> string list" where
  "statuses [] = []"
| "statuses (Inl e # rs) = statuses rs"
| "statuses (Inr s # rs) = s # statuses rs"

section \<open>The upload script: \<open>add-tagged-images.py\<close>\<close>

text \<open>
  A tag of the project, as \<open>get_tags\<close> returns it: its \<open>name\<close> and its \<open>id\<close>.
\<close>

record Tag =
  t_name :: string
  t_id :: string

text \<open>
  \<open>tagged-images.json\<close>: the entries of \<open>files\<close>, each a \<open>filename\<close> and its
  \<open>tags\<close>, each of them a \<open>tag\<close> name and a box. The numbers of a box are only
  handed on, so their type is left open.
\<close>

record 'n json_tag =
  j_tag :: string
  j_left :: 'n
  j_top :: 'n
  j_width :: 'n
  j_height :: 'n

record 'n json_file =
  j_filename :: string
  j_tags :: "'n json_tag list"

text \<open>The objects of the SDK the script builds.\<close>

record 'n Region =
  r_tag_id :: string
  r_left :: 'n
  r_top :: 'n
  r_width :: 'n
  r_height :: 'n

record 'n ImageFileCreateEntry =
  e_name :: string
  e_contents :: string
  e_regions :: "'n Region list"

text \<open>What \<open>create_images_from_files\<close> returns, as far as the script reads it.\<close>

record upload_result =
  is_batch_successful :: bool
  image_statuses :: "string list"

datatype 'n upload_event =
    UPrint string
  | GetProject
  | GetTags
  | CreateImagesFromFiles "'n ImageFileCreateEntry list"

text \<open>
  \<open>next(t for t in tags if t.name == tag_name)\<close> (line 140): the first tag of that
  name; \<open>next\<close> on an exhausted generator raises \<open>StopIteration\<close>.
\<close>

fun next_tag :: "Tag list \<Rightarrow> string \<Rightarrow> error + Tag" where
  "next_tag [] tag_name = Inl StopIteration"
| "next_tag (t # ts) tag_name = (if t_name t = tag_name then Inr t else next_tag ts tag_name)"

text \<open>The loop over the tags of one image (lines 132 to 151).\<close>

fun make_regions :: "Tag list \<Rightarrow> 'n json_tag list \<Rightarrow> 'n Region list \<Rightarrow> error + 'n Region list" where
  "make_regions tags [] regions = Inr regions"
| "make_regions tags (tag # rest) regions =
     (case next_tag tags (j_tag tag) of
        Inl e \<Rightarrow> Inl e
      | Inr t \<Rightarrow>
          make_regions tags rest
            (regions @ [\<lparr>r_tag_id = t_id t, r_left = j_left tag, r_top = j_top tag,
                         r_width = j_width tag, r_height = j_height tag\<rparr>]))"

text \<open>
  The loop over the images (lines 122 to 159). \<open>fs folder file\<close> is the content of the
  file \<open>os.path.join(folder, file)\<close>, or \<open>None\<close> when \<open>open\<close> fails.
\<close>

fun make_batch ::
  "Tag list \<Rightarrow> (string \<Rightarrow> string \<Rightarrow> string option) \<Rightarrow> string \<Rightarrow> 'n json_file list \<Rightarrow>
   'n ImageFileCreateEntry list \<Rightarrow> error + 'n ImageFileCreateEntry list" where
  "make_batch tags fs folder [] tagged_images_with_regions = Inr tagged_images_with_regions"
| "make_batch tags fs folder (img # rest) tagged_images_with_regions =
     (case make_regions tags (j_tags img) [] of
        Inl e \<Rightarrow> Inl e
      | Inr regions \<Rightarrow>
          (case fs folder (j_filename img) of
             None \<Rightarrow> Inl (FileNotFoundError (j_filename img))
           | Some contents \<Rightarrow>
               make_batch tags fs folder rest
                 (tagged_images_with_regions @
                  [\<lparr>e_name = j_filename img, e_contents = contents, e_regions = regions\<rparr>])))"

text \<open>The report after the upload (lines 171 to 180).\<close>

definition report :: "upload_result \<Rightarrow> 'n upload_event list" where
  "report upload_result =
     (if \<not> is_batch_successful upload_result then
        UPrint ''Image batch upload failed.'' #
        map (\<lambda>status. UPrint (''Image status: '' @ '' '' @ status)) (image_statuses upload_result)
      else [UPrint ''Images uploaded.''])"

text \<open>
  \<open>Upload_Images\<close> (lines 102 to 180). \<open>get_tags\<close> is the result of the call of that
  name, \<open>tagged_images\<close> the \<open>files\<close> read from \<open>tagged-images.json\<close> (or the
  exception of reading it), \<open>create\<close> the remote service answering the batch upload.
\<close>

definition Upload_Images ::
  "(error + Tag list) \<Rightarrow> (error + 'n json_file list) \<Rightarrow> (string \<Rightarrow> string \<Rightarrow> string option) \<Rightarrow>
   ('n ImageFileCreateEntry list \<Rightarrow> error + upload_result) \<Rightarrow> string \<Rightarrow>
   outcome \<times> 'n upload_event list" where
  "Upload_Images get_tags tagged_images fs create folder =
     (case get_tags of
        Inl e \<Rightarrow> (Raised e, [UPrint ''Uploading images...'', GetTags])
      | Inr tags \<Rightarrow>
          (case tagged_images of
             Inl e \<Rightarrow> (Raised e, [UPrint ''Uploading images...'', GetTags])
           | Inr files \<Rightarrow>
               (case make_batch tags fs folder files [] of
                  Inl e \<Rightarrow> (Raised e, [UPrint ''Uploading images...'', GetTags])
                | Inr batch \<Rightarrow>
                    (case create batch of
                       Inl e \<Rightarrow>
                         (Raised e,
                          [UPrint ''Uploading images...'', GetTags, CreateImagesFromFiles batch])
                     | Inr upload_result \<Rightarrow>
                         (Returned,
                          [UPrint ''Uploading images...'', GetTags, CreateImagesFromFiles batch]
                          @ report upload_result)))))"

text \<open>
  \<open>main\<close> from line 60 on: \<open>get_project\<close>, then \<open>Upload_Images('images')\<close>, inside
  \<open>try\<close>; the handler (lines 65 to 67) prints the exception and the script ends.
  \<open>get_project\<close> is the exception that call raises, if it raises. \<open>str_of\<close> is
  Python's \<open>str\<close> of the exception.
\<close>

definition main_upload ::
  "(error \<Rightarrow> string) \<Rightarrow> error option \<Rightarrow> (error + Tag list) \<Rightarrow> (error + 'n json_file list) \<Rightarrow>
   (string \<Rightarrow> string \<Rightarrow> string option) \<Rightarrow>
   ('n ImageFileCreateEntry list \<Rightarrow> error + upload_result) \<Rightarrow> 'n upload_event list" where
  "main_upload str_of get_project get_tags tagged_images fs create =
     (case get_project of
        Some e \<Rightarrow> [GetProject, UPrint (str_of e)]
      | None \<Rightarrow>
          (case Upload_Images get_tags tagged_images fs create ''images'' of
             (Raised e, tr) \<Rightarrow> GetProject # tr @ [UPrint (str_of e)]
           | (Returned, tr) \<Rightarrow> GetProject # tr
           | (Running, tr) \<Rightarrow> GetProject # tr))"

text \<open>The batches the run has sent to the service.\<close>

fun uploads :: "'n upload_event list \<Rightarrow> 'n ImageFileCreateEntry list list" where
  "uploads [] = []"
| "uploads (UPrint s # tr) = uploads tr"
| "uploads (GetProject # tr) = uploads tr"
| "uploads (GetTags # tr) = uploads tr"
| "uploads (CreateImagesFromFiles batch # tr) = batch # uploads tr"

text \<open>Every tag name of the JSON file is the name of a tag of the project.\<close>

definition all_tags_known :: "Tag list \<Rightarrow> 'n json_file list \<Rightarrow> bool" where
  "all_tags_known tags files =
     list_all (\<lambda>img. list_all (\<lambda>tag. j_tag tag \<in> t_name ` set tags) (j_tags img)) files"

section \<open>The test scripts: \<open>test-classifier.py\<close> and \<open>test-detector.py\<close>\<close>

text \<open>
  A prediction of the service. Its \<open>probability\<close> is a Python float between 0 and 1;
  the model takes it as the real number the float stands for. Comparing two floats is
  exact. The product \<open>probability*100\<close> is rounded to a float by Python and is exact
  here.
\<close>

record BoundingBox =
  b_left :: real
  b_top :: real
  b_width :: real
  b_height :: real

record Prediction =
  tag_name :: string
  probability :: real
  bounding_box :: BoundingBox

text \<open>
  The loop over the predictions of one image in \<open>test-classifier.py\<close> (lines 61 to
  68), as the lines it prints. \<open>pct\<close> is the formatting \<open>{:.0%}\<close> of a float.
\<close>

definition classified_line :: "(real \<Rightarrow> string) \<Rightarrow> string \<Rightarrow> Prediction \<Rightarrow> string" where
  "classified_line pct img prediction =
     img @ '' '' @ '': '' @ tag_name prediction @ '' ('' @ pct (probability prediction) @ '')''"

fun print_classified :: "(real \<Rightarrow> string) \<Rightarrow> string \<Rightarrow> Prediction list \<Rightarrow> string list" where
  "print_classified pct img [] = []"
| "print_classified pct img (prediction # rest) =
     (if probability prediction > 0.5 then
        classified_line pct img prediction # print_classified pct img rest
      else print_classified pct img rest)"

text \<open>
  The loop over the images (lines 49 to 68) inside the \<open>try\<close> of \<open>main\<close>, and its
  handler (lines 69 to 71). \<open>classify img\<close> is the result of reading the image and of
  \<open>classify_image\<close> on it: the predictions, or the exception raised.
\<close>

fun classify_images ::
  "(real \<Rightarrow> string) \<Rightarrow> (string \<Rightarrow> error + Prediction list) \<Rightarrow> string list \<Rightarrow> string list \<Rightarrow>
   outcome \<times> string list" where
  "classify_images pct classify [] out = (Returned, out)"
| "classify_images pct classify (img # rest) out =
     (case classify img of
        Inl e \<Rightarrow> (Raised e, out)
      | Inr predictions \<Rightarrow>
          classify_images pct classify rest (out @ print_classified pct img predictions))"

definition main_classifier ::
  "(error \<Rightarrow> string) \<Rightarrow> (real \<Rightarrow> string) \<Rightarrow> (string \<Rightarrow> error + Prediction list) \<Rightarrow> string list \<Rightarrow>
   string list" where
  "main_classifier str_of pct classify listdir =
     (case classify_images pct classify listdir [] of
        (Raised e, out) \<Rightarrow> out @ [str_of e]
      | (Returned, out) \<Rightarrow> out
      | (Running, out) \<Rightarrow> out)"

text \<open>
  \<open>test-detector.py\<close>. What the script does to the console, to the image and to the
  figure, in program order.
\<close>

datatype draw_event =
    DPrint string
  | Figure
  | AxisOff
  | DrawLine "(real \<times> real) list" string nat
  | Annotate string "real \<times> real" string
  | Imshow
  | SaveFig string

text \<open>The loop of \<open>main\<close> that prints the tag names (lines 74 to 79).\<close>

fun print_detected :: "Prediction list \<Rightarrow> draw_event list" where
  "print_detected [] = []"
| "print_detected (prediction # rest) =
     (if probability prediction * 100 > 50 then
        DPrint (tag_name prediction) # print_detected rest
      else print_detected rest)"

text \<open>
  The loop of \<open>save_tagged_images\<close> that draws the boxes (lines 136 to 166), for an
  image \<open>h\<close> pixels high and \<open>w\<close> wide. \<open>fmt\<close> is the formatting \<open>{0:.2f}\<close> of a
  float.
\<close>

definition box_events :: "(real \<Rightarrow> string) \<Rightarrow> nat \<Rightarrow> nat \<Rightarrow> Prediction \<Rightarrow> draw_event list" where
  "box_events fmt h w detected_object =
     (let left = b_left (bounding_box detected_object) * real w;
          top = b_top (bounding_box detected_object) * real h;
          height = b_height (bounding_box detected_object) * real h;
          width = b_width (bounding_box detected_object) * real w;
          points = [(left, top), (left + width, top), (left + width, top + height),
                    (left, top + height), (left, top)];
          label_text = tag_name detected_object @ '': '' @
                       fmt (probability detected_object * 100) @ ''%''
      in [DrawLine points ''magenta'' (w div 100),
          Annotate label_text (left, top) ''magenta''])"

fun draw_detected :: "(real \<Rightarrow> string) \<Rightarrow> nat \<Rightarrow> nat \<Rightarrow> Prediction list \<Rightarrow> draw_event list" where
  "draw_detected fmt h w [] = []"
| "draw_detected fmt h w (detected_object # rest) =
     (if probability detected_object * 100 > 50 then
        box_events fmt h w detected_object @ draw_detected fmt h w rest
      else draw_detected fmt h w rest)"

text \<open>
  \<open>save_tagged_images\<close> (lines 111 to 178). \<open>shape\<close> is the height and the width of the
  opened image, or the exception of opening it.
\<close>

definition save_tagged_images ::
  "(real \<Rightarrow> string) \<Rightarrow> (error + nat \<times> nat) \<Rightarrow> Prediction list \<Rightarrow> outcome \<times> draw_event list" where
  "save_tagged_images fmt shape detected_objects =
     (case shape of
        Inl e \<Rightarrow> (Raised e, [])
      | Inr (h, w) \<Rightarrow>
          (Returned,
           [Figure, AxisOff] @ draw_detected fmt h w detected_objects @
           [Imshow, SaveFig ''output.jpg'', DPrint (''Results saved in'' @ '' '' @ ''output.jpg'')]))"

text \<open>
  \<open>main\<close> of \<open>test-detector.py\<close> from line 60 on. \<open>detect\<close> is the result of reading
  the image and of \<open>detect_image\<close> on it.
\<close>

definition main_detector ::
  "(error \<Rightarrow> string) \<Rightarrow> (real \<Rightarrow> string) \<Rightarrow> (error + Prediction list) \<Rightarrow> (error + nat \<times> nat) \<Rightarrow>
   draw_event list" where
  "main_detector str_of fmt detect shape =
     (case detect of
        Inl e \<Rightarrow> [DPrint (''Detecting objects in'' @ '' '' @ ''produce.jpg''), DPrint (str_of e)]
      | Inr predictions \<Rightarrow>
          (case save_tagged_images fmt shape predictions of
             (Raised e, tr) \<Rightarrow>
               DPrint (''Detecting objects in'' @ '' '' @ ''produce.jpg'') #
               print_detected predictions @ tr @ [DPrint (str_of e)]
           | (Returned, tr) \<Rightarrow>
               DPrint (''Detecting objects in'' @ '' '' @ ''produce.jpg'') #
               print_detected predictions @ tr
           | (Running, tr) \<Rightarrow>
               DPrint (''Detecting objects in'' @ '' '' @ ''produce.jpg'') #
               print_detected predictions @ tr))"

text \<open>The lines the detector drew, read off a trace.\<close>

fun drawn_lines :: "draw_event list \<Rightarrow> (real \<times> real) list list" where
  "drawn_lines [] = []"
| "drawn_lines (DPrint s # tr) = drawn_lines tr"
| "drawn_lines (Figure # tr) = drawn_lines tr"
| "drawn_lines (AxisOff # tr) = drawn_lines tr"
| "drawn_lines (DrawLine ps c n # tr) = ps # drawn_lines tr"
| "drawn_lines (Annotate t xy c # tr) = drawn_lines tr"
| "drawn_lines (Imshow # tr) = drawn_lines tr"
| "drawn_lines (SaveFig f # tr) = drawn_lines tr"

section \<open>Properties of the training script\<close>

lemma printed_append [simp]: "printed (a @ b) = printed a @ printed b"
  by (induction a rule: printed.induct) simp_all

lemma calls_append [simp]: "calls (a @ b) = calls a @ calls b"
  by (induction a rule: calls.induct) simp_all

lemma sleeps_append [simp]: "sleeps (a @ b) = sleeps a @ sleeps b"
  by (induction a rule: sleeps.induct) simp_all

lemma polls_Nil [simp]: "polls [] = 0"
  by (simp add: polls_def)

lemma polls_append [simp]: "polls (a @ b) = polls a + polls b"
  by (simp add: polls_def)

lemma printed_cycle [simp]: "printed (cycle s) = [status_line s]"
  by (simp add: cycle_def)

lemma calls_cycle [simp]: "calls (cycle s) = [GetIteration]"
  by (simp add: cycle_def)

lemma sleeps_cycle [simp]: "sleeps (cycle s) = [5]"
  by (simp add: cycle_def)

lemma polls_cycle [simp]: "polls (cycle s) = 1"
  by (simp add: polls_def)

lemma printed_cycles [simp]: "printed (concat (map cycle ss)) = map status_line ss"
  by (induction ss) simp_all

lemma polls_cycles [simp]: "polls (concat (map cycle ss)) = length ss"
  by (induction ss) simp_all

text \<open>The loop only ever extends the trace it is given.\<close>

lemma watch_loop_trace:
  "watch_loop rs status tr = (fst (watch_loop rs status []), tr @ snd (watch_loop rs status []))"
proof (induction rs arbitrary: status tr)
  case Nil
  show ?case by simp
next
  case (Cons r rs)
  show ?case
  proof (cases r)
    case (Inl e)
    then show ?thesis by simp
  next
    case (Inr s)
    have a: "watch_loop rs s (tr @ cycle s) =
        (fst (watch_loop rs s []), (tr @ cycle s) @ snd (watch_loop rs s []))"
      by (rule Cons.IH)
    have b: "watch_loop rs s (cycle s) =
        (fst (watch_loop rs s []), cycle s @ snd (watch_loop rs s []))"
      by (rule Cons.IH)
    show ?thesis using a b Inr by (simp add: cycle_def)
  qed
qed

text \<open>
  A run over non-terminal statuses \<open>ss\<close>, started in a non-terminal status, consumes
  all of them and goes on with what follows.
\<close>

lemma watch_loop_prefix:
  assumes "status \<noteq> ''Completed''" and "\<forall>s \<in> set ss. s \<noteq> ''Completed''"
  shows "watch_loop (map Inr ss @ rest) status tr =
         watch_loop rest (last (status # ss)) (tr @ concat (map cycle ss))"
  using assms
proof (induction ss arbitrary: status tr)
  case Nil
  show ?case by simp
next
  case (Cons s ss)
  have "watch_loop (map Inr (s # ss) @ rest) status tr =
        watch_loop (map Inr ss @ rest) s (tr @ cycle s)"
    using Cons.prems(1) by (simp add: cycle_def)
  also have "\<dots> = watch_loop rest (last (s # ss)) ((tr @ cycle s) @ concat (map cycle ss))"
    using Cons.prems(2) by (intro Cons.IH) simp_all
  finally show ?case by simp
qed

lemma last_nonterminal:
  assumes "status \<noteq> ''Completed''" and "\<forall>s \<in> set ss. s \<noteq> ''Completed''"
  shows "last (status # ss) \<noteq> ''Completed''"
  using assms by (induction ss arbitrary: status) auto

text \<open>The three ways a run can go on after the non-terminal statuses \<open>ss\<close>.\<close>

lemma watch_loop_completed:
  assumes "status \<noteq> ''Completed''" and "\<forall>s \<in> set ss. s \<noteq> ''Completed''"
  shows "watch_loop (map Inr ss @ Inr ''Completed'' # rest) status tr =
         (Returned, tr @ concat (map cycle (ss @ [''Completed''])))"
proof -
  have "watch_loop (Inr ''Completed'' # rest) (last (status # ss)) (tr @ concat (map cycle ss)) =
        watch_loop rest ''Completed'' ((tr @ concat (map cycle ss)) @ cycle ''Completed'')"
    using last_nonterminal [OF assms] by (simp add: cycle_def)
  also have "\<dots> = (Returned, (tr @ concat (map cycle ss)) @ cycle ''Completed'')"
    by (cases rest) simp_all
  finally show ?thesis
    using watch_loop_prefix [OF assms] by simp
qed

lemma watch_loop_raised:
  assumes "status \<noteq> ''Completed''" and "\<forall>s \<in> set ss. s \<noteq> ''Completed''"
  shows "watch_loop (map Inr ss @ Inl e # rest) status tr =
         (Raised e, tr @ concat (map cycle ss) @ [Call GetIteration])"
  using watch_loop_prefix [OF assms] last_nonterminal [OF assms] by simp

lemma watch_loop_running:
  assumes "status \<noteq> ''Completed''" and "\<forall>s \<in> set ss. s \<noteq> ''Completed''"
  shows "watch_loop (map Inr ss) status tr = (Running, tr @ concat (map cycle ss))"
  using watch_loop_prefix [OF assms, of "[]"] last_nonterminal [OF assms] by simp

text \<open>One more turn of the loop: the trace of the rest comes after that of the turn.\<close>

lemma watch_loop_turn:
  assumes "status \<noteq> ''Completed''"
  shows "snd (watch_loop (Inr s # rs) status []) = cycle s @ snd (watch_loop rs s [])"
proof -
  have "watch_loop (Inr s # rs) status [] = watch_loop rs s (cycle s)"
    using assms by (simp add: cycle_def)
  then show ?thesis
    using watch_loop_trace [of rs s "cycle s"] by simp
qed

lemma polls_watch_loop_mono: "polls tr \<le> polls (snd (watch_loop rs status tr))"
  by (subst watch_loop_trace) simp

lemma polls_watch_loop_step:
  assumes "status \<noteq> ''Completed''"
  shows "Suc (polls tr) \<le> polls (snd (watch_loop (r # rest) status tr))"
proof (cases r)
  case (Inl e)
  with assms show ?thesis by (simp add: polls_def)
next
  case (Inr s)
  have "polls (tr @ cycle s) \<le> polls (snd (watch_loop rest s (tr @ cycle s)))"
    by (rule polls_watch_loop_mono)
  with assms Inr show ?thesis by (simp add: cycle_def polls_def)
qed

subsection \<open>C1: the polls made and the lines printed up to the terminal status\<close>

text \<open>
  C1, as the code has it. Started in a non-terminal status, on poll results that are the
  non-terminal statuses \<open>ss\<close> and then \<open>Completed\<close>, the loop returns after exactly
  as many \<open>get_iteration\<close> calls as there are results, whatever the service would have
  answered after them, and it has printed one status line for every result: also one
  for the terminal result, \<open>Completed ...\<close>.
\<close>

theorem watch_loop_prints_every_poll:
  assumes "status \<noteq> ''Completed''" and "\<forall>s \<in> set ss. s \<noteq> ''Completed''"
  shows "fst (watch_loop (map Inr (ss @ [''Completed'']) @ rest) status []) = Returned \<and>
         polls (snd (watch_loop (map Inr (ss @ [''Completed'']) @ rest) status [])) =
           length (ss @ [''Completed'']) \<and>
         printed (snd (watch_loop (map Inr (ss @ [''Completed'']) @ rest) status [])) =
           map status_line (ss @ [''Completed''])"
  using watch_loop_completed [OF assms, of rest "[]"] by simp

theorem watch_loop_prints_every_poll_witness:
  "fst (watch_loop (map Inr ([''Training'', ''Training'', ''Validating''] @ [''Completed'']) @ [])
          ''Training'' []) = Returned \<and>
   polls (snd (watch_loop (map Inr ([''Training'', ''Training'', ''Validating''] @ [''Completed'']) @ [])
          ''Training'' [])) = 4 \<and>
   printed (snd (watch_loop (map Inr ([''Training'', ''Training'', ''Validating''] @ [''Completed'']) @ [])
          ''Training'' [])) =
     [''Training ...'', ''Training ...'', ''Validating ...'', ''Completed ...'']"
  using watch_loop_prints_every_poll
    [of "''Training''" "[''Training'', ''Training'', ''Validating'']" "[]"]
  by (simp add: status_line_def)

text \<open>
  C1 as the specification states it fails: on the poll results \<open>Training\<close>,
  \<open>Completed\<close> the loop prints two status lines, the second one for the terminal
  result, and not only the line of the one non-terminal result.
\<close>

theorem terminal_status_line_counterexample:
  "printed (snd (watch_loop [Inr ''Training'', Inr ''Completed''] ''Training'' [])) =
     [''Training ...'', ''Completed ...''] \<and>
   printed (snd (watch_loop [Inr ''Training'', Inr ''Completed''] ''Training'' [])) \<noteq>
     map status_line [''Training'']"
  by (simp add: status_line_def)

subsection \<open>C2: the loop stops on \<open>Completed\<close> and on nothing else\<close>

text \<open>
  C2. Let \<open>s\<close> be the status a poll observes, after polls that gave the non-terminal
  statuses \<open>ss\<close>. The loop returns with that poll as its last one exactly when \<open>s\<close> is
  \<open>Completed\<close>. Any other \<open>s\<close>, \<open>Failed\<close> or an unknown word alike, is no error:
  the loop is still running after it, and it polls again as soon as the service answers.
\<close>

theorem watch_loop_stops_iff_completed:
  assumes "status \<noteq> ''Completed''" and "\<forall>x \<in> set ss. x \<noteq> ''Completed''"
  shows "((fst (watch_loop (map Inr ss @ Inr s # rest) status []) = Returned \<and>
           polls (snd (watch_loop (map Inr ss @ Inr s # rest) status [])) = length ss + 1)
          = (s = ''Completed'')) \<and>
         (s \<noteq> ''Completed'' \<longrightarrow>
            watch_loop (map Inr ss @ [Inr s]) status [] =
              (Running, concat (map cycle (ss @ [s]))) \<and>
            length ss + 2 \<le>
              polls (snd (watch_loop (map Inr ss @ Inr s # r # rest') status [])))"
proof (cases "s = ''Completed''")
  case True
  then show ?thesis using watch_loop_completed [OF assms, of rest "[]"] by simp
next
  case False
  have all: "\<forall>x \<in> set (ss @ [s]). x \<noteq> ''Completed''"
    using assms(2) False by simp
  have go: "watch_loop (map Inr ss @ Inr s # more) status [] =
            watch_loop more s (concat (map cycle (ss @ [s])))" for more
    using watch_loop_prefix [OF assms(1) all, of more "[]"] by simp
  have run: "watch_loop (map Inr ss @ [Inr s]) status [] =
             (Running, concat (map cycle (ss @ [s])))"
    using watch_loop_running [OF assms(1) all, of "[]"] by simp
  have again: "length ss + 2 \<le>
      polls (snd (watch_loop (map Inr ss @ Inr s # x # more) status []))" for x more
    using polls_watch_loop_step [OF False, of "concat (map cycle (ss @ [s]))" x more]
      go [of "x # more"]
    by simp
  have "\<not> (fst (watch_loop (map Inr ss @ Inr s # rest) status []) = Returned \<and>
           polls (snd (watch_loop (map Inr ss @ Inr s # rest) status [])) = length ss + 1)"
  proof (cases rest)
    case Nil
    then show ?thesis using run by simp
  next
    case (Cons x more)
    then show ?thesis using again [of x more] by simp
  qed
  then show ?thesis using False run again [of r rest'] by simp
qed

theorem watch_loop_stops_iff_completed_witness:
  "watch_loop (map Inr [''Training''] @ [Inr ''Failed'']) ''Training'' [] =
     (Running, [Call GetIteration, Print ''Training ...'', Sleep 5,
                Call GetIteration, Print ''Failed ...'', Sleep 5]) \<and>
   polls (snd (watch_loop (map Inr [''Training''] @ Inr ''Failed'' # Inr ''Bogus'' # [])
                 ''Training'' [])) = 3 \<and>
   fst (watch_loop (map Inr [''Training''] @ Inr ''Completed'' # [Inr ''Training''])
          ''Training'' []) = Returned"
  using watch_loop_stops_iff_completed
      [of "''Training''" "[''Training'']" "''Failed''" "[]" "Inr ''Bogus''" "[]"]
    watch_loop_stops_iff_completed
      [of "''Training''" "[''Training'']" "''Completed''" "[Inr ''Training'']"]
  by (simp add: status_line_def cycle_def polls_def)

subsection \<open>C3: a poll that raises ends the run\<close>

text \<open>
  C3. When poll number \<open>N\<close> raises \<open>e\<close>, after \<open>N - 1\<close> polls that gave the
  non-terminal statuses \<open>ss\<close>, the loop raises the same \<open>e\<close>: the failed call is the
  last event of the run, whatever the service would have answered later, so there are
  \<open>N\<close> polls and no retry; the lines printed are the \<open>N - 1\<close> status lines of \<open>ss\<close>
  and none for call \<open>N\<close>. \<open>Train_Model\<close> hands \<open>e\<close> on, and the handler of \<open>main\<close>
  prints it.
\<close>

theorem watch_raises_on_failed_poll:
  assumes "status \<noteq> ''Completed''" and "\<forall>s \<in> set ss. s \<noteq> ''Completed''"
  shows "watch (map Inr ss @ Inl e # rest) status [] =
           (Raised e, concat (map cycle ss) @ [Call GetIteration]) \<and>
         polls (snd (watch (map Inr ss @ Inl e # rest) status [])) = length ss + 1 \<and>
         printed (snd (watch (map Inr ss @ Inl e # rest) status [])) = map status_line ss \<and>
         Train_Model (Inr status) (map Inr ss @ Inl e # rest) =
           (Raised e, [Print ''Training ...'', Call TrainProject] @ concat (map cycle ss) @
                      [Call GetIteration]) \<and>
         main_train str_of (Inr status) (map Inr ss @ Inl e # rest) =
           (Returned, [Print ''Training ...'', Call TrainProject] @ concat (map cycle ss) @
                      [Call GetIteration, Print (str_of e)])"
proof -
  have a: "watch (map Inr ss @ Inl e # rest) status tr =
           (Raised e, tr @ concat (map cycle ss) @ [Call GetIteration])" for tr
    using watch_loop_raised [OF assms, of e rest tr] by (simp add: watch_def)
  have b: "polls [Call GetIteration] = 1"
    by (simp add: polls_def)
  show ?thesis
    using a [of "[]"] a [of "[Print ''Training ...'', Call TrainProject]"] b
    by (simp add: Train_Model_def main_train_def)
qed

theorem watch_raises_on_failed_poll_witness:
  "watch (map Inr [''Training''] @ Inl (TransportError ''timeout'') # [Inr ''Completed''])
     ''Training'' [] =
     (Raised (TransportError ''timeout''),
      [Call GetIteration, Print ''Training ...'', Sleep 5, Call GetIteration]) \<and>
   printed (snd (watch (map Inr [''Training''] @ Inl (TransportError ''timeout'') #
                        [Inr ''Completed'']) ''Training'' [])) =
     [''Training ...'']"
  using watch_raises_on_failed_poll
    [of "''Training''" "[''Training'']" "TransportError ''timeout''" "[Inr ''Completed'']"]
  by (simp add: status_line_def cycle_def)

subsection \<open>C4: the terminal status on the first poll\<close>

text \<open>
  A loop entered with an iteration that is already \<open>Completed\<close>, as \<open>train_project\<close>
  returned it, makes no poll at all: the loop test fails at once.
\<close>

lemma watch_entered_completed:
  "watch rs ''Completed'' [] = (Returned, [Print ''Model trained!'']) \<and>
   Train_Model (Inr ''Completed'') rs =
     (Returned, [Print ''Training ...'', Call TrainProject, Print ''Model trained!''])"
proof -
  have "watch_loop rs ''Completed'' tr = (Returned, tr)" for tr
    by (cases rs) simp_all
  then show ?thesis
    by (simp add: watch_def Train_Model_def)
qed

text \<open>
  C4, as the code has it. When the first \<open>get_iteration\<close> reports \<open>Completed\<close>, the
  watcher makes no second poll, whatever the service would have answered next, prints no
  line of a non-terminal status and prints \<open>Model trained!\<close> once. It does not return at
  once and \<open>Model trained!\<close> is not its only line: the turn of the loop that polled
  first prints the status line \<open>Completed ...\<close> and sleeps 5 seconds, and only then
  does the loop test end the loop.
\<close>

theorem watch_first_poll_completed:
  assumes "status \<noteq> ''Completed''"
  shows "watch (Inr ''Completed'' # rest) status [] =
           (Returned, [Call GetIteration, Print ''Completed ...'', Sleep 5,
                       Print ''Model trained!'']) \<and>
         polls (snd (watch (Inr ''Completed'' # rest) status [])) = 1 \<and>
         sleeps (snd (watch (Inr ''Completed'' # rest) status [])) = [5] \<and>
         printed (snd (watch (Inr ''Completed'' # rest) status [])) =
           [status_line ''Completed'', ''Model trained!'']"
proof -
  have "watch_loop (Inr ''Completed'' # rest) status [] = (Returned, cycle ''Completed'')"
    using watch_loop_completed [OF assms, of "[]" rest "[]"] by simp
  then show ?thesis
    by (simp add: watch_def cycle_def status_line_def polls_def)
qed

theorem watch_first_poll_completed_witness:
  "watch (Inr ''Completed'' # [Inr ''Training'']) ''Training'' [] =
     (Returned, [Call GetIteration, Print ''Completed ...'', Sleep 5,
                 Print ''Model trained!'']) \<and>
   polls (snd (watch (Inr ''Completed'' # [Inr ''Training'']) ''Training'' [])) = 1"
proof -
  have h: "''Training'' \<noteq> ''Completed''" by simp
  from watch_first_poll_completed [OF h, of "[Inr ''Training'']"]
  show ?thesis by (simp add: polls_def)
qed

text \<open>
  C4 as the specification states it fails: when the first poll reports \<open>Completed\<close>,
  the watcher sleeps once before it returns, and what it prints is two lines, not the
  completion line alone.
\<close>

theorem first_poll_completed_counterexample:
  "sleeps (snd (watch [Inr ''Completed''] ''Training'' [])) = [5] \<and>
   printed (snd (watch [Inr ''Completed''] ''Training'' [])) =
     [''Completed ...'', ''Model trained!''] \<and>
   printed (snd (watch [Inr ''Completed''] ''Training'' [])) \<noteq> [''Model trained!'']"
  by (simp add: watch_def status_line_def)

subsection \<open>C5: what the watcher prints\<close>

lemma watch_loop_lines:
  "printed (snd (watch_loop rs status [])) =
   map status_line (statuses (take (polls (snd (watch_loop rs status []))) rs))"
proof (induction rs arbitrary: status)
  case Nil
  show ?case by simp
next
  case (Cons r rs)
  show ?case
  proof (cases "status = ''Completed''")
    case True
    then show ?thesis by simp
  next
    case False
    show ?thesis
    proof (cases r)
      case (Inl e)
      with False show ?thesis by (simp add: polls_def)
    next
      case (Inr s)
      then show ?thesis
        using watch_loop_turn [OF False, of s rs] Cons.IH [of s] by simp
    qed
  qed
qed

text \<open>
  C5. The lines the watcher prints are, in order: for each \<open>get_iteration\<close> that
  returned, the status it returned followed by \<open>...\<close> (after one space), and then
  \<open>Model trained!\<close> when, and only when, the loop has ended on the terminal status.
  \<open>take (polls \<dots>) rs\<close> is the results of the polls the run has made.
\<close>

theorem watch_output:
  "printed (snd (watch rs status [])) =
     map status_line (statuses (take (polls (snd (watch rs status []))) rs)) @
     (if fst (watch rs status []) = Returned then [''Model trained!''] else [])"
proof (cases "watch_loop rs status []")
  case (Pair out tr)
  then show ?thesis
    using watch_loop_lines [of rs status]
    by (cases out) (simp_all add: watch_def polls_def)
qed

theorem watch_output_witness:
  "printed (snd (watch [Inr ''Training'', Inr ''Training'', Inr ''Validating'', Inr ''Completed'']
                   ''Training'' [])) =
     [''Training ...'', ''Training ...'', ''Validating ...'', ''Completed ...'',
      ''Model trained!'']"
  using watch_output
    [of "[Inr ''Training'', Inr ''Training'', Inr ''Validating'', Inr ''Completed'']" "''Training''"]
  by (simp add: watch_def status_line_def polls_def)

subsection \<open>C6: when the loop ends\<close>

lemma answers_map: "answers p n = map Inr (map p [0..<n])"
  by (simp add: answers_def comp_def)

lemma answers_split:
  assumes "k < n"
  shows "answers p n = map Inr (map p [0..<k]) @ Inr (p k) # map Inr (map p [Suc k..<n])"
proof -
  have "[0..<n] = [0..<k] @ [k..<n]"
    using assms upt_add_eq_append [of 0 k "n - k"] by simp
  also have "[k..<n] = k # [Suc k..<n]"
    using assms by (rule upt_conv_Cons)
  finally show ?thesis by (simp add: answers_def comp_def)
qed

lemma watch_loop_never_completed:
  assumes "status \<noteq> ''Completed''" and "\<forall>k. p k \<noteq> ''Completed''"
  shows "fst (watch_loop (answers p n) status []) = Running \<and>
         polls (snd (watch_loop (answers p n) status [])) = n"
proof -
  have "\<forall>s \<in> set (map p [0..<n]). s \<noteq> ''Completed''"
    using assms(2) by auto
  from watch_loop_running [OF assms(1) this, of "[]"]
  have run: "watch_loop (answers p n) status [] = (Running, concat (map cycle (map p [0..<n])))"
    unfolding answers_map by simp
  have "polls (concat (map cycle (map p [0..<n]))) = n"
    using polls_cycles [of "map p [0..<n]"] by simp
  with run show ?thesis by simp
qed

lemma watch_loop_first_completed:
  assumes "status \<noteq> ''Completed''" and "p k = ''Completed''"
    and "\<forall>j<k. p j \<noteq> ''Completed''" and "k < n"
  shows "fst (watch_loop (answers p n) status []) = Returned \<and>
         polls (snd (watch_loop (answers p n) status [])) = Suc k"
proof -
  have "\<forall>s \<in> set (map p [0..<k]). s \<noteq> ''Completed''"
    using assms(3) by auto
  from watch_loop_completed [OF assms(1) this, of "map Inr (map p [Suc k..<n])" "[]"]
  have run: "watch_loop (answers p n) status [] =
      (Returned, concat (map cycle (map p [0..<k] @ [''Completed''])))"
    unfolding answers_split [OF assms(4), of p] assms(2) by simp
  have "polls (concat (map cycle (map p [0..<k] @ [''Completed'']))) = Suc k"
    using polls_cycles [of "map p [0..<k] @ [''Completed'']"] by simp
  with run show ?thesis by simp
qed

text \<open>
  C6. Let the \<open>k\<close>-th poll report the status \<open>p k\<close>, for a loop entered in a
  non-terminal status. The loop returns, on some finite number of answers, exactly when
  some poll reports \<open>Completed\<close>. If none ever does, then after any number \<open>n\<close> of
  answers the loop has made \<open>n\<close> polls and is still running: it has no bound. If poll
  \<open>k\<close> is the first to report \<open>Completed\<close>, the loop has returned after \<open>k + 1\<close>
  polls as soon as that answer is there.
\<close>

theorem watch_loop_terminates_iff:
  assumes "status \<noteq> ''Completed''"
  shows "((\<exists>n. fst (watch_loop (answers p n) status []) = Returned) = (\<exists>k. p k = ''Completed'')) \<and>
         ((\<forall>k. p k \<noteq> ''Completed'') \<longrightarrow>
            (\<forall>n. fst (watch_loop (answers p n) status []) = Running \<and>
                 polls (snd (watch_loop (answers p n) status [])) = n)) \<and>
         (\<forall>k. p k = ''Completed'' \<and> (\<forall>j<k. p j \<noteq> ''Completed'') \<longrightarrow>
            (\<forall>n>k. fst (watch_loop (answers p n) status []) = Returned \<and>
                   polls (snd (watch_loop (answers p n) status [])) = Suc k))"
proof (intro conjI)
  show "(\<exists>n. fst (watch_loop (answers p n) status []) = Returned) = (\<exists>k. p k = ''Completed'')"
  proof
    assume "\<exists>n. fst (watch_loop (answers p n) status []) = Returned"
    then obtain n where n: "fst (watch_loop (answers p n) status []) = Returned" ..
    show "\<exists>k. p k = ''Completed''"
    proof (rule ccontr)
      assume "\<not> (\<exists>k. p k = ''Completed'')"
      then have "\<forall>k. p k \<noteq> ''Completed''" by simp
      from watch_loop_never_completed [OF assms this, of n] n show False by simp
    qed
  next
    assume "\<exists>k. p k = ''Completed''"
    then obtain k where k: "p k = ''Completed''" ..
    define m where "m = (LEAST i. p i = ''Completed'')"
    have m: "p m = ''Completed''"
      unfolding m_def using k by (rule LeastI)
    have least: "\<forall>j<m. p j \<noteq> ''Completed''"
      unfolding m_def using not_less_Least by blast
    from watch_loop_first_completed [OF assms m least, of "Suc m"]
    have "fst (watch_loop (answers p (Suc m)) status []) = Returned" by simp
    then show "\<exists>n. fst (watch_loop (answers p n) status []) = Returned" ..
  qed
next
  show "(\<forall>k. p k \<noteq> ''Completed'') \<longrightarrow>
        (\<forall>n. fst (watch_loop (answers p n) status []) = Running \<and>
             polls (snd (watch_loop (answers p n) status [])) = n)"
    using watch_loop_never_completed [OF assms, of p] by blast
next
  show "\<forall>k. p k = ''Completed'' \<and> (\<forall>j<k. p j \<noteq> ''Completed'') \<longrightarrow>
          (\<forall>n>k. fst (watch_loop (answers p n) status []) = Returned \<and>
                 polls (snd (watch_loop (answers p n) status [])) = Suc k)"
    using watch_loop_first_completed [OF assms, of p] by blast
qed

theorem watch_loop_terminates_iff_witness:
  "(\<exists>n. fst (watch_loop (answers (\<lambda>k. if k < 2 then ''Training'' else ''Completed'') n)
            ''Training'' []) = Returned) \<and>
   fst (watch_loop (answers (\<lambda>k. if k < 2 then ''Training'' else ''Completed'') 5)
          ''Training'' []) = Returned \<and>
   polls (snd (watch_loop (answers (\<lambda>k. if k < 2 then ''Training'' else ''Completed'') 5)
                 ''Training'' [])) = 3 \<and>
   fst (watch_loop (answers (\<lambda>k. ''Failed'') 7) ''Training'' []) = Running \<and>
   polls (snd (watch_loop (answers (\<lambda>k. ''Failed'') 7) ''Training'' [])) = 7"
proof -
  let ?p = "\<lambda>k::nat. if k < 2 then ''Training'' else ''Completed''"
  let ?q = "\<lambda>k::nat. ''Failed''"
  have s: "''Training'' \<noteq> ''Completed''" by simp
  have a: "\<exists>k. ?p k = ''Completed''"
    by (rule exI [of _ 2]) simp
  have b: "?p 2 = ''Completed'' \<and> (\<forall>j<2. ?p j \<noteq> ''Completed'')" by simp
  have c: "\<forall>k. ?q k \<noteq> ''Completed''" by simp
  note t = watch_loop_terminates_iff [OF s, of ?p] and u = watch_loop_terminates_iff [OF s, of ?q]
  from t a have 1: "\<exists>n. fst (watch_loop (answers ?p n) ''Training'' []) = Returned"
    by blast
  from t b have "\<forall>n>2. fst (watch_loop (answers ?p n) ''Training'' []) = Returned \<and>
      polls (snd (watch_loop (answers ?p n) ''Training'' [])) = Suc 2"
    by blast
  then have 2: "fst (watch_loop (answers ?p 5) ''Training'' []) = Returned \<and>
      polls (snd (watch_loop (answers ?p 5) ''Training'' [])) = 3"
    by simp
  from u c have 3: "fst (watch_loop (answers ?q 7) ''Training'' []) = Running \<and>
      polls (snd (watch_loop (answers ?q 7) ''Training'' [])) = 7"
    by blast
  from 1 2 3 show ?thesis by blast
qed

subsection \<open>C7: the loop only reads the job\<close>

lemma calls_watch_loop:
  "calls (snd (watch_loop rs status [])) =
   replicate (polls (snd (watch_loop rs status []))) GetIteration"
proof (induction rs arbitrary: status)
  case Nil
  show ?case by simp
next
  case (Cons r rs)
  show ?case
  proof (cases "status = ''Completed''")
    case True
    then show ?thesis by simp
  next
    case False
    show ?thesis
    proof (cases r)
      case (Inl e)
      with False show ?thesis by (simp add: polls_def)
    next
      case (Inr s)
      then show ?thesis
        using watch_loop_turn [OF False, of s rs] Cons.IH [of s] by simp
    qed
  qed
qed

text \<open>
  C7. Every call of the client the loop makes, in a run of any length and however it
  ends, is \<open>get_iteration\<close>, the query that reads the iteration back. The one call of
  \<open>Train_Model\<close> that changes the project, \<open>train_project\<close>, comes before the loop.
\<close>

theorem watch_loop_only_reads:
  "calls (snd (watch_loop rs status [])) =
     replicate (polls (snd (watch_loop rs status []))) GetIteration \<and>
   list_all read_only (calls (snd (watch_loop rs status []))) \<and>
   calls (snd (Train_Model (Inr status) rs)) =
     TrainProject # replicate (polls (snd (watch_loop rs status []))) GetIteration"
proof -
  have a: "list_all read_only (replicate n GetIteration)" for n
    by (induction n) (simp_all add: read_only_def)
  have b: "snd (watch rs status tr) = tr @ snd (watch rs status [])" for tr
    using watch_loop_trace [of rs status tr]
    by (cases "watch_loop rs status []"; cases "fst (watch_loop rs status [])")
       (simp_all add: watch_def)
  have c: "calls (snd (watch rs status [])) = calls (snd (watch_loop rs status []))"
    by (cases "watch_loop rs status []"; cases "fst (watch_loop rs status [])")
       (simp_all add: watch_def)
  show ?thesis
    using calls_watch_loop [of rs status] a b [of "[Print ''Training ...'', Call TrainProject]"] c
    by (simp add: Train_Model_def)
qed

theorem watch_loop_only_reads_witness:
  "calls (snd (watch_loop [Inr ''Training'', Inr ''Failed'', Inl (TransportError ''reset'')]
                 ''Training'' [])) =
     [GetIteration, GetIteration, GetIteration] \<and>
   calls (snd (Train_Model (Inr ''Training'') [Inr ''Training'', Inr ''Completed''])) =
     [TrainProject, GetIteration, GetIteration]"
  using watch_loop_only_reads
      [of "[Inr ''Training'', Inr ''Failed'', Inl (TransportError ''reset'')]" "''Training''"]
    watch_loop_only_reads [of "[Inr ''Training'', Inr ''Completed'']" "''Training''"]
  by (simp add: polls_def)

subsection \<open>C8: five seconds between two polls\<close>

lemma gaps_watch_loop:
  assumes "acc = None \<or> acc = Some 5"
  shows "list_all (\<lambda>d. d = 5) (print_gaps acc (snd (watch_loop rs status [])))"
  using assms
proof (induction rs arbitrary: status acc)
  case Nil
  show ?case by simp
next
  case (Cons r rs)
  show ?case
  proof (cases "status = ''Completed''")
    case True
    then show ?thesis by simp
  next
    case False
    show ?thesis
    proof (cases r)
      case (Inl e)
      with False show ?thesis by simp
    next
      case (Inr s)
      then show ?thesis
        using watch_loop_turn [OF False, of s rs] Cons.IH [of "Some 5" s] Cons.prems
        by (auto simp: cycle_def)
    qed
  qed
qed

lemma sleeps_watch_loop:
  "sleeps (snd (watch_loop rs status [])) =
   replicate (length (printed (snd (watch_loop rs status [])))) 5"
proof (induction rs arbitrary: status)
  case Nil
  show ?case by simp
next
  case (Cons r rs)
  show ?case
  proof (cases "status = ''Completed''")
    case True
    then show ?thesis by simp
  next
    case False
    show ?thesis
    proof (cases r)
      case (Inl e)
      with False show ?thesis by simp
    next
      case (Inr s)
      then show ?thesis
        using watch_loop_turn [OF False, of s rs] Cons.IH [of s] by simp
    qed
  qed
qed

text \<open>
  C8. In a run of the loop of any length, there is one sleep after each status line, each
  sleep is of 5 seconds, never longer or shorter, and the time slept between a status
  line and the next one is 5 seconds: the time that passes between the two is the sleep
  and the call of the client, so it is 5 seconds at least.
\<close>

theorem watch_loop_fixed_interval:
  "sleeps (snd (watch_loop rs status [])) =
     replicate (length (printed (snd (watch_loop rs status [])))) 5 \<and>
   list_all (\<lambda>d. d = 5) (print_gaps None (snd (watch_loop rs status [])))"
  using sleeps_watch_loop [of rs status] gaps_watch_loop [of None rs status] by simp

theorem watch_loop_fixed_interval_witness:
  "sleeps (snd (watch_loop [Inr ''Training'', Inr ''Validating'', Inr ''Completed'']
                  ''Training'' [])) = [5, 5, 5] \<and>
   print_gaps None (snd (watch_loop [Inr ''Training'', Inr ''Validating'', Inr ''Completed'']
                           ''Training'' [])) = [5, 5]"
  using watch_loop_fixed_interval
    [of "[Inr ''Training'', Inr ''Validating'', Inr ''Completed'']" "''Training''"]
  by simp

section \<open>Properties of the upload script\<close>

subsection \<open>C10: an unknown tag name stops the upload\<close>

lemma next_tag_unknown:
  "nm \<notin> t_name ` set tags \<Longrightarrow> next_tag tags nm = Inl StopIteration"
  by (induction tags) auto

lemma next_tag_error: "next_tag tags nm = Inl e \<Longrightarrow> e = StopIteration"
  by (induction tags) (auto split: if_splits)

lemma make_regions_error: "make_regions tags jts regions = Inl e \<Longrightarrow> e = StopIteration"
  by (induction jts arbitrary: regions) (auto split: sum.splits dest: next_tag_error)

lemma make_regions_unknown:
  "\<not> list_all (\<lambda>tag. j_tag tag \<in> t_name ` set tags) jts \<Longrightarrow>
   make_regions tags jts regions = Inl StopIteration"
proof (induction jts arbitrary: regions)
  case Nil
  then show ?case by simp
next
  case (Cons jt jts)
  show ?case
  proof (cases "next_tag tags (j_tag jt)")
    case (Inl e)
    then show ?thesis using next_tag_error [OF Inl] by simp
  next
    case (Inr t)
    then have "j_tag jt \<in> t_name ` set tags"
      using next_tag_unknown [of "j_tag jt" tags] by auto
    with Cons.prems have "\<not> list_all (\<lambda>tag. j_tag tag \<in> t_name ` set tags) jts"
      by simp
    from Cons.IH [OF this] Inr show ?thesis by simp
  qed
qed

lemma make_batch_unknown:
  assumes "\<not> all_tags_known tags files"
  shows "\<exists>e. make_batch tags fs folder files batch = Inl e \<and>
             (e = StopIteration \<or> (\<exists>f. e = FileNotFoundError f)) \<and>
             ((\<forall>img \<in> set files. fs folder (j_filename img) \<noteq> None) \<longrightarrow> e = StopIteration)"
  using assms
proof (induction files arbitrary: batch)
  case Nil
  then show ?case by (simp add: all_tags_known_def)
next
  case (Cons img files)
  show ?case
  proof (cases "list_all (\<lambda>tag. j_tag tag \<in> t_name ` set tags) (j_tags img)")
    case False
    from make_regions_unknown [OF this] show ?thesis by simp
  next
    case True
    with Cons.prems have rest: "\<not> all_tags_known tags files"
      by (simp add: all_tags_known_def)
    show ?thesis
    proof (cases "make_regions tags (j_tags img) []")
      case (Inl e)
      then show ?thesis using make_regions_error [OF Inl] by simp
    next
      case (Inr regions)
      show ?thesis
      proof (cases "fs folder (j_filename img)")
        case None
        with Inr show ?thesis by simp
      next
        case (Some contents)
        from Cons.IH [OF rest] Inr Some show ?thesis by simp
      qed
    qed
  qed
qed

text \<open>
  C10. If some tag name of \<open>tagged-images.json\<close> is not the name of a tag of the
  project, \<open>Upload_Images\<close> raises before it reaches \<open>create_images_from_files\<close>:
  the run is the first print and \<open>get_tags\<close>, no batch is sent, so no image at all is
  uploaded, and \<open>main\<close>, whose handler only prints, sends none either. What is raised
  is the \<open>StopIteration\<close> of the lookup, unless the file of an image that comes earlier
  in the JSON file could not be opened, which raises first; when all the image files can
  be opened it is \<open>StopIteration\<close>.
\<close>

theorem Upload_Images_unknown_tag:
  assumes "\<not> all_tags_known tags files"
  shows "\<exists>e. Upload_Images (Inr tags) (Inr files) fs create folder =
               (Raised e, [UPrint ''Uploading images...'', GetTags]) \<and>
             uploads (snd (Upload_Images (Inr tags) (Inr files) fs create folder)) = [] \<and>
             uploads (main_upload str_of get_project (Inr tags) (Inr files) fs create) = [] \<and>
             (e = StopIteration \<or> (\<exists>f. e = FileNotFoundError f)) \<and>
             ((\<forall>img \<in> set files. fs folder (j_filename img) \<noteq> None) \<longrightarrow> e = StopIteration)"
proof -
  from make_batch_unknown [OF assms, of fs folder "[]"]
  obtain e where e: "make_batch tags fs folder files [] = Inl e"
    and k: "e = StopIteration \<or> (\<exists>f. e = FileNotFoundError f)"
    and a: "(\<forall>img \<in> set files. fs folder (j_filename img) \<noteq> None) \<longrightarrow> e = StopIteration"
    by blast
  have run: "Upload_Images (Inr tags) (Inr files) fs create folder =
        (Raised e, [UPrint ''Uploading images...'', GetTags])"
    using e by (simp add: Upload_Images_def)
  from make_batch_unknown [OF assms, of fs "''images''" "[]"]
  obtain e' where "make_batch tags fs ''images'' files [] = Inl e'"
    by blast
  then have "Upload_Images (Inr tags) (Inr files) fs create ''images'' =
        (Raised e', [UPrint ''Uploading images...'', GetTags])"
    by (simp add: Upload_Images_def)
  then have "uploads (main_upload str_of get_project (Inr tags) (Inr files) fs create) = []"
    by (cases get_project) (simp_all add: main_upload_def)
  with run k a show ?thesis by simp
qed

theorem Upload_Images_unknown_tag_witness:
  "Upload_Images
     (Inr [\<lparr>t_name = ''apple'', t_id = ''1''\<rparr>])
     (Inr [\<lparr>j_filename = ''a.jpg'',
            j_tags = [\<lparr>j_tag = ''apple'', j_left = 1::nat, j_top = 2, j_width = 3, j_height = 4\<rparr>]\<rparr>,
           \<lparr>j_filename = ''b.jpg'',
            j_tags = [\<lparr>j_tag = ''pear'', j_left = 1, j_top = 2, j_width = 3, j_height = 4\<rparr>]\<rparr>])
     (\<lambda>folder file. Some ''bytes'')
     (\<lambda>batch. Inr \<lparr>is_batch_successful = True, image_statuses = []\<rparr>)
     ''images'' =
   (Raised StopIteration, [UPrint ''Uploading images...'', GetTags])"
proof -
  let ?tags = "[\<lparr>t_name = ''apple'', t_id = ''1''\<rparr>]"
  let ?files = "[\<lparr>j_filename = ''a.jpg'',
            j_tags = [\<lparr>j_tag = ''apple'', j_left = 1::nat, j_top = 2, j_width = 3, j_height = 4\<rparr>]\<rparr>,
           \<lparr>j_filename = ''b.jpg'',
            j_tags = [\<lparr>j_tag = ''pear'', j_left = 1, j_top = 2, j_width = 3, j_height = 4\<rparr>]\<rparr>]"
  have h: "\<not> all_tags_known ?tags ?files"
    by (simp add: all_tags_known_def)
  from Upload_Images_unknown_tag [OF h, of "\<lambda>folder file. Some ''bytes''"
      "\<lambda>batch. Inr \<lparr>is_batch_successful = True, image_statuses = []\<rparr>" "''images''"]
  show ?thesis by auto
qed

text \<open>
  The other side: when every tag name is known and every image file can be opened, the
  run sends one batch, with one entry for each image of the JSON file, in order.
\<close>

lemma next_tag_known:
  "nm \<in> t_name ` set tags \<Longrightarrow> \<exists>t. next_tag tags nm = Inr t \<and> t \<in> set tags \<and> t_name t = nm"
  by (induction tags) auto

lemma make_regions_known:
  "list_all (\<lambda>tag. j_tag tag \<in> t_name ` set tags) jts \<Longrightarrow>
   \<exists>new. make_regions tags jts regions = Inr (regions @ new) \<and> length new = length jts"
proof (induction jts arbitrary: regions)
  case Nil
  then show ?case by simp
next
  case (Cons jt jts)
  then obtain t where t: "next_tag tags (j_tag jt) = Inr t"
    using next_tag_known [of "j_tag jt" tags] by auto
  let ?r = "\<lparr>r_tag_id = t_id t, r_left = j_left jt, r_top = j_top jt,
             r_width = j_width jt, r_height = j_height jt\<rparr>"
  from Cons.prems have "list_all (\<lambda>tag. j_tag tag \<in> t_name ` set tags) jts" by simp
  from Cons.IH [OF this, of "regions @ [?r]"]
  obtain new where "make_regions tags jts (regions @ [?r]) = Inr ((regions @ [?r]) @ new)"
    and "length new = length jts" by blast
  then have "make_regions tags (jt # jts) regions = Inr (regions @ (?r # new)) \<and>
             length (?r # new) = length (jt # jts)"
    using t by simp
  then show ?case by blast
qed

lemma make_batch_known:
  assumes "all_tags_known tags files"
    and "\<forall>img \<in> set files. fs folder (j_filename img) \<noteq> None"
  shows "\<exists>new. make_batch tags fs folder files batch = Inr (batch @ new) \<and>
               map e_name new = map j_filename files"
  using assms
proof (induction files arbitrary: batch)
  case Nil
  then show ?case by simp
next
  case (Cons img files)
  from Cons.prems(1) have known: "list_all (\<lambda>tag. j_tag tag \<in> t_name ` set tags) (j_tags img)"
    and rest: "all_tags_known tags files"
    by (simp_all add: all_tags_known_def)
  from make_regions_known [OF known, of "[]"]
  obtain regions where r: "make_regions tags (j_tags img) [] = Inr regions" by auto
  from Cons.prems(2) obtain contents where c: "fs folder (j_filename img) = Some contents"
    by auto
  let ?e = "\<lparr>e_name = j_filename img, e_contents = contents, e_regions = regions\<rparr>"
  from Cons.prems(2) have "\<forall>img \<in> set files. fs folder (j_filename img) \<noteq> None" by simp
  from Cons.IH [of "batch @ [?e]", OF rest this]
  obtain new where "make_batch tags fs folder files (batch @ [?e]) = Inr ((batch @ [?e]) @ new)"
    and "map e_name new = map j_filename files" by blast
  then have "make_batch tags fs folder (img # files) batch = Inr (batch @ (?e # new)) \<and>
             map e_name (?e # new) = map j_filename (img # files)"
    using r c by simp
  then show ?case by blast
qed

lemma uploads_append [simp]: "uploads (a @ b) = uploads a @ uploads b"
  by (induction a rule: uploads.induct) simp_all

lemma uploads_prints [simp]: "uploads (map (\<lambda>x. UPrint (f x)) xs) = []"
  by (induction xs) simp_all

lemma uploads_report [simp]: "uploads (report upload_result) = []"
  by (simp add: report_def)

lemma Upload_Images_known_tags:
  assumes "all_tags_known tags files"
    and "\<forall>img \<in> set files. fs folder (j_filename img) \<noteq> None"
  shows "\<exists>batch. uploads (snd (Upload_Images (Inr tags) (Inr files) fs create folder)) = [batch] \<and>
                 map e_name batch = map j_filename files"
proof -
  from make_batch_known [of tags files fs folder "[]", OF assms]
  obtain batch where b: "make_batch tags fs folder files [] = Inr batch"
    and n: "map e_name batch = map j_filename files" by auto
  have "uploads (snd (Upload_Images (Inr tags) (Inr files) fs create folder)) = [batch]"
    using b by (cases "create batch") (simp_all add: Upload_Images_def)
  with n show ?thesis by blast
qed

section \<open>Properties of the test scripts\<close>

subsection \<open>C9: only predictions above one half are reported\<close>

lemma print_classified_filter:
  "print_classified pct img predictions =
   map (classified_line pct img) (filter (\<lambda>p. 1 / 2 < probability p) predictions)"
  by (induction predictions) simp_all

lemma print_detected_filter:
  "print_detected predictions =
   map (\<lambda>p. DPrint (tag_name p)) (filter (\<lambda>p. 1 / 2 < probability p) predictions)"
  by (induction predictions) simp_all

lemma draw_detected_filter:
  "draw_detected fmt h w predictions =
   concat (map (box_events fmt h w) (filter (\<lambda>p. 1 / 2 < probability p) predictions))"
  by (induction predictions) simp_all

text \<open>The same for the whole runs of the two scripts, when no call raises.\<close>

lemma classify_images_reports:
  assumes "\<forall>img \<in> set listdir. classify img = Inr (predictions img)"
  shows "classify_images pct classify listdir out =
         (Returned, out @ concat (map (\<lambda>img. print_classified pct img (predictions img)) listdir))"
  using assms by (induction listdir arbitrary: out) simp_all

lemma main_classifier_reports:
  assumes "\<forall>img \<in> set listdir. classify img = Inr (predictions img)"
  shows "main_classifier str_of pct classify listdir =
         concat (map (\<lambda>img. map (classified_line pct img)
                               (filter (\<lambda>p. 1 / 2 < probability p) (predictions img))) listdir)"
  using classify_images_reports [OF assms, of pct "[]"]
  by (simp add: main_classifier_def print_classified_filter)

lemma main_detector_reports:
  "main_detector str_of fmt (Inr predictions) (Inr (h, w)) =
     DPrint ''Detecting objects in produce.jpg'' #
     map (\<lambda>p. DPrint (tag_name p)) (filter (\<lambda>p. 1 / 2 < probability p) predictions) @
     [Figure, AxisOff] @
     concat (map (box_events fmt h w) (filter (\<lambda>p. 1 / 2 < probability p) predictions)) @
     [Imshow, SaveFig ''output.jpg'', DPrint ''Results saved in output.jpg'']"
  by (simp add: main_detector_def save_tagged_images_def print_detected_filter draw_detected_filter)

text \<open>
  C9. Of the predictions of a call, the classifier script prints a line for exactly those
  whose probability is greater than one half, in order; the detector script prints the
  tag name of exactly those, and draws the box and the label of exactly those. A
  prediction whose probability is one half gives no line, no name and no box.
\<close>

theorem predictions_above_half:
  "print_classified pct img predictions =
     map (classified_line pct img) (filter (\<lambda>p. 1 / 2 < probability p) predictions) \<and>
   print_detected predictions =
     map (\<lambda>p. DPrint (tag_name p)) (filter (\<lambda>p. 1 / 2 < probability p) predictions) \<and>
   draw_detected fmt h w predictions =
     concat (map (box_events fmt h w) (filter (\<lambda>p. 1 / 2 < probability p) predictions)) \<and>
   (probability prediction = 1 / 2 \<longrightarrow>
      print_classified pct img [prediction] = [] \<and> print_detected [prediction] = [] \<and>
      draw_detected fmt h w [prediction] = [])"
  using print_classified_filter [of pct img predictions] print_detected_filter [of predictions]
    draw_detected_filter [of fmt h w predictions]
  by simp

theorem predictions_above_half_witness:
  "print_classified (\<lambda>p. ''51%'') ''a.jpg''
     [\<lparr>tag_name = ''apple'', probability = 1 / 2,
       bounding_box = \<lparr>b_left = 0, b_top = 0, b_width = 1, b_height = 1\<rparr>\<rparr>,
      \<lparr>tag_name = ''banana'', probability = 51 / 100,
       bounding_box = \<lparr>b_left = 0, b_top = 0, b_width = 1, b_height = 1\<rparr>\<rparr>] =
     [''a.jpg : banana (51%)''] \<and>
   print_detected
     [\<lparr>tag_name = ''apple'', probability = 1 / 2,
       bounding_box = \<lparr>b_left = 0, b_top = 0, b_width = 1, b_height = 1\<rparr>\<rparr>,
      \<lparr>tag_name = ''banana'', probability = 51 / 100,
       bounding_box = \<lparr>b_left = 0, b_top = 0, b_width = 1, b_height = 1\<rparr>\<rparr>] =
     [DPrint ''banana''] \<and>
   drawn_lines (draw_detected (\<lambda>p. ''51.00'') 200 400
     [\<lparr>tag_name = ''apple'', probability = 1 / 2,
       bounding_box = \<lparr>b_left = 0, b_top = 0, b_width = 1, b_height = 1\<rparr>\<rparr>,
      \<lparr>tag_name = ''banana'', probability = 51 / 100,
       bounding_box = \<lparr>b_left = 1 / 4, b_top = 1 / 2, b_width = 1 / 2, b_height = 1 / 4\<rparr>\<rparr>]) =
     [[(100, 100), (300, 100), (300, 150), (100, 150), (100, 100)]]"
  using predictions_above_half [of "\<lambda>p. ''51%''" "''a.jpg''"
     "[\<lparr>tag_name = ''apple'', probability = 1 / 2,
       bounding_box = \<lparr>b_left = 0, b_top = 0, b_width = 1, b_height = 1\<rparr>\<rparr>,
      \<lparr>tag_name = ''banana'', probability = 51 / 100,
       bounding_box = \<lparr>b_left = 0, b_top = 0, b_width = 1, b_height = 1\<rparr>\<rparr>]"]
  by (simp add: classified_line_def box_events_def)

end
